theory Spec2Isabelle
  imports Main "HOL-Library.AList" "HOL-Library.Sublist"
begin

section \<open>The options of a sass-spec test case (src/lib/spec-directory/options.ts)\<close>

subsection \<open>Data model\<close>

text \<open>
  The interface \<^verbatim>\<open>OptionsData\<close> declares four optional properties: three of type
  \<^verbatim>\<open>string[]\<close> and \<^verbatim>\<open>':precision'\<close> of type \<^verbatim>\<open>number\<close>. A value read from such an
  object is an array of strings, a number or \<^verbatim>\<open>undefined\<close>. Numbers are modelled as
  integers (the precision is a count of decimal digits).
\<close>

datatype jsval = JUndefined | JNumber int | JArray "string list"

text \<open>
  The object itself is the list of its own properties in the order in which
  \<^verbatim>\<open>Object.entries\<close> and the object spread enumerate them (for keys like the four
  above, the order of insertion). A key that is present with the value \<^verbatim>\<open>undefined\<close>
  is an entry of the list; an absent key is not. Nothing stops a decoded document from
  carrying further keys, so the keys are arbitrary strings.
\<close>

type_synonym OptionsData = "(string \<times> jsval) list"

text \<open>\<^verbatim>\<open>type OptionKey = ':ignore_for' | ':todo' | ':warning_todo'\<close>\<close>

datatype OptionKey = Ignore_for | Todo | Warning_todo

fun key :: "OptionKey \<Rightarrow> string" where
  "key Ignore_for = '':ignore_for''"
| "key Todo = '':todo''"
| "key Warning_todo = '':warning_todo''"

definition precision_key :: string where
  "precision_key = '':precision''"

text \<open>The class wraps the data: \<^verbatim>\<open>new SpecOptions(data)\<close>.\<close>

datatype SpecOptions = SpecOptions (data: OptionsData)

text \<open>
  The only exception the code can raise by itself is JavaScript's \<^verbatim>\<open>TypeError\<close>, when
  a property does not hold a value of its declared type.
\<close>

datatype error = TypeError

text \<open>The return type of \<^verbatim>\<open>getMode\<close> is \<^verbatim>\<open>'todo' | 'ignore' | undefined\<close>.\<close>

datatype mode = Mode_todo | Mode_ignore

subsection \<open>JavaScript primitives used by the class\<close>

text \<open>A property read \<^verbatim>\<open>o[k]\<close>: \<^verbatim>\<open>undefined\<close> when the key is absent.\<close>

definition get :: "OptionsData \<Rightarrow> string \<Rightarrow> jsval" where
  "get obj k = (case map_of obj k of None \<Rightarrow> JUndefined | Some v \<Rightarrow> v)"

text \<open>\<^verbatim>\<open>a ?? b\<close>\<close>

definition nullish :: "jsval \<Rightarrow> jsval \<Rightarrow> jsval" where
  "nullish a b = (if a = JUndefined then b else a)"

text \<open>
  \<^verbatim>\<open>[...(v ?? [])]\<close>: the elements of an array, nothing for \<^verbatim>\<open>undefined\<close>; a number
  is not iterable.
\<close>

fun spread_or_empty :: "jsval \<Rightarrow> error + string list" where
  "spread_or_empty JUndefined = Inr []"
| "spread_or_empty (JArray xs) = Inr xs"
| "spread_or_empty (JNumber n) = Inl TypeError"

text \<open>
  \<^verbatim>\<open>item.includes(impl)\<close>: whether \<^verbatim>\<open>impl\<close> occurs in \<^verbatim>\<open>item\<close> at some position,
  searched from position 0 upwards. A string is the list of its characters.
\<close>

fun str_includes :: "string \<Rightarrow> string \<Rightarrow> bool" where
  "str_includes [] impl = (impl = [])"
| "str_includes (c # cs) impl = (prefix impl (c # cs) \<or> str_includes cs impl)"

text \<open>\<^verbatim>\<open>xs.some(p)\<close>\<close>

fun some :: "('a \<Rightarrow> bool) \<Rightarrow> 'a list \<Rightarrow> bool" where
  "some p [] = False"
| "some p (x # xs) = (if p x then True else some p xs)"

text \<open>\<^verbatim>\<open>xs.findIndex(p)\<close>: the index of the first element satisfying \<^verbatim>\<open>p\<close>, or -1.\<close>

fun findIndex :: "('a \<Rightarrow> bool) \<Rightarrow> 'a list \<Rightarrow> int" where
  "findIndex p [] = -1"
| "findIndex p (x # xs) =
     (if p x then 0 else (let i = findIndex p xs in if i = -1 then -1 else i + 1))"

text \<open>
  \<^verbatim>\<open>xs.slice(start, end)\<close>: a negative index counts from the end, and both indices
  are clamped to the array.
\<close>

definition slice :: "'a list \<Rightarrow> int \<Rightarrow> int \<Rightarrow> 'a list" where
  "slice xs start stop =
     (let len = int (length xs);
          k = (if start < 0 then max (len + start) 0 else min start len);
          final = (if stop < 0 then max (len + stop) 0 else min stop len)
      in take (nat (final - k)) (drop (nat k) xs))"

subsection \<open>The class SpecOptions\<close>

text \<open>
  \<^verbatim>\<open>key === ':precision' ? value === 10 : value.length === 0\<close>. Reading \<^verbatim>\<open>length\<close>
  of \<^verbatim>\<open>undefined\<close> raises; a number has no \<^verbatim>\<open>length\<close>, so the comparison is false.
\<close>

fun inert :: "string \<times> jsval \<Rightarrow> error + bool" where
  "inert (k, v) =
     (if k = precision_key then Inr (v = JNumber 10)
      else (case v of
              JUndefined \<Rightarrow> Inl TypeError
            | JNumber n \<Rightarrow> Inr False
            | JArray xs \<Rightarrow> Inr (length xs = 0)))"

text \<open>\<^verbatim>\<open>entries.every(p)\<close> stops at the first entry for which \<^verbatim>\<open>p\<close> is false.\<close>

fun every :: "('a \<Rightarrow> error + bool) \<Rightarrow> 'a list \<Rightarrow> error + bool" where
  "every p [] = Inr True"
| "every p (x # xs) =
     (case p x of
        Inl e \<Rightarrow> Inl e
      | Inr b \<Rightarrow> if b then every p xs else Inr False)"

definition isEmpty :: "SpecOptions \<Rightarrow> error + bool" where
  "isEmpty this = every inert (data this)"

text \<open>
  \<^verbatim>\<open>mergeOption\<close> of \<^verbatim>\<open>merge\<close>:
  \<^verbatim>\<open>[...(this.data[option] ?? []), ...(other.data[option] ?? [])]\<close>
\<close>

definition mergeOption :: "SpecOptions \<Rightarrow> SpecOptions \<Rightarrow> OptionKey \<Rightarrow> error + string list" where
  "mergeOption this other option =
     (case spread_or_empty (get (data this) (key option)) of
        Inl e \<Rightarrow> Inl e
      | Inr xs \<Rightarrow>
          (case spread_or_empty (get (data other) (key option)) of
             Inl e \<Rightarrow> Inl e
           | Inr ys \<Rightarrow> Inr (xs @ ys)))"

definition merge :: "SpecOptions \<Rightarrow> SpecOptions \<Rightarrow> error + SpecOptions" where
  "merge this other =
     (case mergeOption this other Ignore_for of
        Inl e \<Rightarrow> Inl e
      | Inr i \<Rightarrow>
     (case mergeOption this other Todo of
        Inl e \<Rightarrow> Inl e
      | Inr t \<Rightarrow>
     (case mergeOption this other Warning_todo of
        Inl e \<Rightarrow> Inl e
      | Inr w \<Rightarrow>
          Inr (SpecOptions
            [(key Ignore_for, JArray i),
             (key Todo, JArray t),
             (key Warning_todo, JArray w),
             (precision_key,
                nullish (get (data other) precision_key) (get (data this) precision_key))]))))"

text \<open>
  \<^verbatim>\<open>!!this.data[option]?.some(item => item.includes(impl))\<close>: the optional chain
  stops at \<^verbatim>\<open>undefined\<close>; a number has no method \<^verbatim>\<open>some\<close>, and calling it raises.
\<close>

definition hasForImpl :: "SpecOptions \<Rightarrow> string \<Rightarrow> OptionKey \<Rightarrow> error + bool" where
  "hasForImpl this impl option =
     (case get (data this) (key option) of
        JUndefined \<Rightarrow> Inr False
      | JNumber n \<Rightarrow> Inl TypeError
      | JArray xs \<Rightarrow> Inr (some (\<lambda>item. str_includes item impl) xs))"

definition getMode :: "SpecOptions \<Rightarrow> string \<Rightarrow> error + mode option" where
  "getMode this impl =
     (case hasForImpl this impl Ignore_for of
        Inl e \<Rightarrow> Inl e
      | Inr b \<Rightarrow>
          if b then Inr (Some Mode_ignore)
          else (case hasForImpl this impl Todo of
                  Inl e \<Rightarrow> Inl e
                | Inr b' \<Rightarrow> if b' then Inr (Some Mode_todo) else Inr None))"

definition isWarningTodo :: "SpecOptions \<Rightarrow> string \<Rightarrow> error + bool" where
  "isWarningTodo this impl = hasForImpl this impl Warning_todo"

text \<open>\<^verbatim>\<open>this.data[':precision'] ?? 10\<close>\<close>

definition precision :: "SpecOptions \<Rightarrow> jsval" where
  "precision this = nullish (get (data this) precision_key) (JNumber 10)"

text \<open>
  \<^verbatim>\<open>{...this.data, [optKey]: newOption}\<close> copies the properties in order and then
  assigns \<^verbatim>\<open>optKey\<close>: an existing key keeps its place, a new key goes to the end. This
  is \<^const>\<open>AList.update\<close>.
\<close>

definition addImpl :: "SpecOptions \<Rightarrow> string \<Rightarrow> OptionKey \<Rightarrow> error + SpecOptions" where
  "addImpl this impl optKey =
     (case spread_or_empty (get (data this) (key optKey)) of
        Inl e \<Rightarrow> Inl e
      | Inr xs \<Rightarrow>
          Inr (SpecOptions (AList.update (key optKey) (JArray (xs @ [impl])) (data this))))"

text \<open>
  \<^verbatim>\<open>if (!oldOption) return this\<close>: \<^verbatim>\<open>undefined\<close> and the number 0 are falsy, every
  array is truthy (the empty one too). A non-zero number has no method \<^verbatim>\<open>findIndex\<close>.
  \<^verbatim>\<open>delete newOptions[optKey]\<close> on the copy is \<^const>\<open>AList.delete\<close>.
\<close>

definition removeImpl :: "SpecOptions \<Rightarrow> string \<Rightarrow> OptionKey \<Rightarrow> error + SpecOptions" where
  "removeImpl this impl optKey =
     (case get (data this) (key optKey) of
        JUndefined \<Rightarrow> Inr this
      | JNumber n \<Rightarrow> if n = 0 then Inr this else Inl TypeError
      | JArray oldOption \<Rightarrow>
          (let index = findIndex (\<lambda>item. str_includes item impl) oldOption in
           if index = -1 then Inr this
           else if length oldOption = 1 then
             Inr (SpecOptions (AList.delete (key optKey) (data this)))
           else
             Inr (SpecOptions (AList.update (key optKey)
                    (JArray (slice oldOption 0 index
                             @ slice oldOption (index + 1) (int (length oldOption))))
                    (data this)))))"

text \<open>
  \<^verbatim>\<open>fromYaml\<close> and \<^verbatim>\<open>toYaml\<close> hand the data to \<^verbatim>\<open>yaml.load\<close> and \<^verbatim>\<open>yaml.dump\<close> of
  the library js-yaml, which is not part of these sources; they are not modelled.
\<close>

subsection \<open>Well-typed data\<close>

text \<open>
  A record is well typed when each property holds what \<^verbatim>\<open>OptionsData\<close> declares for it:
  a list property an array (or \<^verbatim>\<open>undefined\<close>, or nothing), the precision a number (or
  \<^verbatim>\<open>undefined\<close>, or nothing).
\<close>

definition list_typed :: "SpecOptions \<Rightarrow> OptionKey \<Rightarrow> bool" where
  "list_typed r option =
     (case get (data r) (key option) of JNumber n \<Rightarrow> False | _ \<Rightarrow> True)"

definition lists_typed :: "SpecOptions \<Rightarrow> bool" where
  "lists_typed r =
     (list_typed r Ignore_for \<and> list_typed r Todo \<and> list_typed r Warning_todo)"

definition well_typed :: "SpecOptions \<Rightarrow> bool" where
  "well_typed r =
     (lists_typed r
      \<and> (case get (data r) precision_key of JArray xs \<Rightarrow> False | _ \<Rightarrow> True))"

subsection \<open>Notions of the specification\<close>

text \<open>
  The sequence a list field stands for: the array it holds, the empty sequence when the
  field is absent or \<^verbatim>\<open>undefined\<close>.
\<close>

definition entries :: "SpecOptions \<Rightarrow> OptionKey \<Rightarrow> string list" where
  "entries r option = (case get (data r) (key option) of JArray xs \<Rightarrow> xs | _ \<Rightarrow> [])"

text \<open>
  A record is semantically empty when all three list fields are empty or absent and the
  precision is absent or equal to the default, 10.
\<close>

definition empty_or_absent :: "SpecOptions \<Rightarrow> OptionKey \<Rightarrow> bool" where
  "empty_or_absent e option =
     (get (data e) (key option) = JUndefined \<or> get (data e) (key option) = JArray [])"

definition semantically_empty :: "SpecOptions \<Rightarrow> bool" where
  "semantically_empty e =
     (empty_or_absent e Ignore_for \<and> empty_or_absent e Todo \<and> empty_or_absent e Warning_todo
      \<and> (get (data e) precision_key = JUndefined \<or> get (data e) precision_key = JNumber 10))"

text \<open>
  A chain of records, root first, is merged by folding it from the left with the
  two-argument merge. A grouping of the chain is a way of bracketing it: a single record,
  or two groupings side by side. An exception ends the whole computation.
\<close>

definition and_then :: "error + 'a \<Rightarrow> ('a \<Rightarrow> error + 'b) \<Rightarrow> error + 'b" where
  "and_then x f = (case x of Inl e \<Rightarrow> Inl e | Inr v \<Rightarrow> f v)"

fun merge_chain :: "SpecOptions \<Rightarrow> SpecOptions list \<Rightarrow> error + SpecOptions" where
  "merge_chain root [] = Inr root"
| "merge_chain root (r # rs) = and_then (merge root r) (\<lambda>m. merge_chain m rs)"

datatype grouping = Single SpecOptions | Group grouping grouping

fun chain :: "grouping \<Rightarrow> SpecOptions list" where
  "chain (Single r) = [r]"
| "chain (Group g h) = chain g @ chain h"

fun merge_grouped :: "grouping \<Rightarrow> error + SpecOptions" where
  "merge_grouped (Single r) = Inr r"
| "merge_grouped (Group g h) =
     and_then (merge_grouped g) (\<lambda>a. and_then (merge_grouped h) (\<lambda>b. merge a b))"

section \<open>Properties\<close>

subsection \<open>Substring containment\<close>

lemma str_includes_iff: "str_includes item impl \<longleftrightarrow> (\<exists>p q. item = p @ impl @ q)"
proof (induction item)
  case Nil
  then show ?case by auto
next
  case (Cons c cs)
  show ?case
  proof
    assume "str_includes (c # cs) impl"
    then consider "prefix impl (c # cs)" | "str_includes cs impl" by auto
    then show "\<exists>p q. c # cs = p @ impl @ q"
    proof cases
      case 1
      then obtain q where "c # cs = impl @ q" by (auto simp: prefix_def)
      then have "c # cs = [] @ impl @ q" by simp
      then show ?thesis by blast
    next
      case 2
      with Cons.IH obtain p q where "cs = p @ impl @ q" by blast
      then have "c # cs = (c # p) @ impl @ q" by simp
      then show ?thesis by blast
    qed
  next
    assume "\<exists>p q. c # cs = p @ impl @ q"
    then obtain p q where pq: "c # cs = p @ impl @ q" by blast
    show "str_includes (c # cs) impl"
    proof (cases p)
      case Nil
      with pq have "prefix impl (c # cs)" by (simp add: prefix_def)
      then show ?thesis by simp
    next
      case (Cons a p')
      with pq have "cs = p' @ impl @ q" by simp
      with Cons.IH have "str_includes cs impl" by blast
      then show ?thesis by simp
    qed
  qed
qed

lemma some_iff: "some p xs \<longleftrightarrow> (\<exists>x \<in> set xs. p x)"
  by (induction xs) auto

subsection \<open>Reading a record\<close>

lemma get_absent: "map_of obj k = None \<Longrightarrow> get obj k = JUndefined"
  by (simp add: get_def)

lemma get_empty [simp]: "get [] k = JUndefined"
  by (simp add: get_def)

lemma hasForImpl_undefined:
  "get (data r) (key f) = JUndefined \<Longrightarrow> hasForImpl r s f = Inr False"
  by (simp add: hasForImpl_def)

lemma hasForImpl_array:
  "get (data r) (key f) = JArray xs \<Longrightarrow>
     hasForImpl r s f = Inr (\<exists>e \<in> set xs. str_includes e s)"
  by (simp add: hasForImpl_def some_iff)

lemma hasForImpl_entries:
  "list_typed r f \<Longrightarrow> hasForImpl r s f = Inr (\<exists>e \<in> set (entries r f). str_includes e s)"
  by (cases "get (data r) (key f)")
     (simp_all add: hasForImpl_undefined hasForImpl_array entries_def list_typed_def)

lemma lists_typed_list_typed: "lists_typed r \<Longrightarrow> list_typed r f"
  by (cases f) (simp_all add: lists_typed_def)

lemma well_typed_list_typed: "well_typed r \<Longrightarrow> list_typed r f"
  by (simp add: well_typed_def lists_typed_list_typed)

lemma hasForImpl_total:
  "list_typed r f \<Longrightarrow> \<exists>b. hasForImpl r s f = Inr b"
  by (cases "get (data r) (key f)") (auto simp: hasForImpl_def list_typed_def)

lemma dart_sass_qualified: "str_includes ''dart-sass: unsupported'' ''dart-sass''"
  by simp

lemma str_includes_empty: "str_includes item []"
  by (cases item) simp_all

subsection \<open>hasForImpl and getMode\<close>

text \<open>
  C5. \<^verbatim>\<open>hasForImpl(s, field)\<close> is false when the selected field is absent (the key is
  missing, or reads as \<^verbatim>\<open>undefined\<close>); when the field holds a sequence, it is true iff
  some entry of the sequence contains \<^verbatim>\<open>s\<close> as a substring. In particular a field with
  the entry \<^verbatim>\<open>"dart-sass: unsupported"\<close> matches the implementation name
  \<^verbatim>\<open>"dart-sass"\<close>.
\<close>

theorem hasForImpl_spec:
  "(map_of (data r) (key f) = None \<longrightarrow> hasForImpl r s f = Inr False) \<and>
   (get (data r) (key f) = JUndefined \<longrightarrow> hasForImpl r s f = Inr False) \<and>
   (\<forall>xs. get (data r) (key f) = JArray xs \<longrightarrow>
      hasForImpl r s f = Inr (\<exists>e \<in> set xs. \<exists>p q. e = p @ s @ q)) \<and>
   (\<forall>xs. get (data r) (key f) = JArray xs \<and> ''dart-sass: unsupported'' \<in> set xs \<longrightarrow>
      hasForImpl r ''dart-sass'' f = Inr True)"
proof (intro conjI allI impI)
  assume "map_of (data r) (key f) = None"
  then show "hasForImpl r s f = Inr False"
    by (simp add: hasForImpl_undefined get_absent)
next
  assume "get (data r) (key f) = JUndefined"
  then show "hasForImpl r s f = Inr False"
    by (rule hasForImpl_undefined)
next
  fix xs
  assume "get (data r) (key f) = JArray xs"
  then show "hasForImpl r s f = Inr (\<exists>e \<in> set xs. \<exists>p q. e = p @ s @ q)"
    by (simp add: hasForImpl_array str_includes_iff)
next
  fix xs
  assume h: "get (data r) (key f) = JArray xs \<and> ''dart-sass: unsupported'' \<in> set xs"
  then have "\<exists>e \<in> set xs. str_includes e ''dart-sass''"
    using dart_sass_qualified by blast
  with h show "hasForImpl r ''dart-sass'' f = Inr True"
    by (simp add: hasForImpl_array)
qed

theorem hasForImpl_spec_witness:
  "hasForImpl (SpecOptions []) ''dart-sass'' Todo = Inr False \<and>
   hasForImpl (SpecOptions [('':todo'', JUndefined)]) ''dart-sass'' Todo = Inr False \<and>
   hasForImpl (SpecOptions [('':todo'', JArray [''libsass'', ''dart-sass: unsupported''])])
      ''dart-sass'' Todo = Inr True \<and>
   hasForImpl (SpecOptions [('':todo'', JArray [''libsass'', ''dart-sass: unsupported''])])
      ''ruby-sass'' Todo = Inr (\<exists>e \<in> {''libsass'', ''dart-sass: unsupported''}. \<exists>p q. e = p @ ''ruby-sass'' @ q)"
  using hasForImpl_spec [of "SpecOptions []" Todo "''dart-sass''"]
    hasForImpl_spec [of "SpecOptions [('':todo'', JUndefined)]" Todo "''dart-sass''"]
    hasForImpl_spec [of "SpecOptions [('':todo'', JArray [''libsass'', ''dart-sass: unsupported''])]" Todo "''ruby-sass''"]
  by (simp add: get_def)

text \<open>
  C4. \<^verbatim>\<open>getMode(s)\<close> is \<^verbatim>\<open>'ignore'\<close> if \<^verbatim>\<open>hasForImpl(s, ':ignore_for')\<close> is true,
  else \<^verbatim>\<open>'todo'\<close> if \<^verbatim>\<open>hasForImpl(s, ':todo')\<close> is true, else \<^verbatim>\<open>undefined\<close>; when
  \<^verbatim>\<open>s\<close> matches both lists the answer is \<^verbatim>\<open>'ignore'\<close>. On a well-typed record both
  tests return, so one of the three cases applies.
\<close>

theorem getMode_spec:
  "(hasForImpl r s Ignore_for = Inr True \<longrightarrow> getMode r s = Inr (Some Mode_ignore)) \<and>
   (hasForImpl r s Ignore_for = Inr False \<and> hasForImpl r s Todo = Inr True \<longrightarrow>
      getMode r s = Inr (Some Mode_todo)) \<and>
   (hasForImpl r s Ignore_for = Inr False \<and> hasForImpl r s Todo = Inr False \<longrightarrow>
      getMode r s = Inr None) \<and>
   (hasForImpl r s Ignore_for = Inr True \<and> hasForImpl r s Todo = Inr True \<longrightarrow>
      getMode r s = Inr (Some Mode_ignore)) \<and>
   (well_typed r \<longrightarrow> (\<exists>i t. hasForImpl r s Ignore_for = Inr i \<and> hasForImpl r s Todo = Inr t))"
  using hasForImpl_total [of r Ignore_for s] hasForImpl_total [of r Todo s]
  by (simp add: getMode_def well_typed_def lists_typed_def)

theorem getMode_spec_witness:
  "getMode (SpecOptions [('':ignore_for'', JArray [''dart-sass'']), ('':todo'', JArray [''dart-sass'', ''libsass''])]) ''dart-sass'' = Inr (Some Mode_ignore) \<and>
   getMode (SpecOptions [('':ignore_for'', JArray [''dart-sass'']), ('':todo'', JArray [''dart-sass'', ''libsass''])]) ''libsass'' = Inr (Some Mode_todo) \<and>
   getMode (SpecOptions [('':ignore_for'', JArray [''dart-sass'']), ('':todo'', JArray [''dart-sass'', ''libsass''])]) ''other'' = Inr None"
  using getMode_spec [of "SpecOptions [('':ignore_for'', JArray [''dart-sass'']), ('':todo'', JArray [''dart-sass'', ''libsass''])]" "''dart-sass''"]
   getMode_spec [of "SpecOptions [('':ignore_for'', JArray [''dart-sass'']), ('':todo'', JArray [''dart-sass'', ''libsass''])]" "''libsass''"]
   getMode_spec [of "SpecOptions [('':ignore_for'', JArray [''dart-sass'']), ('':todo'', JArray [''dart-sass'', ''libsass''])]" "''other''"]
  by (simp add: hasForImpl_def get_def)

text \<open>
  C9. With the empty string as implementation name, \<^verbatim>\<open>hasForImpl\<close> is true iff the
  selected field is present and holds a non-empty sequence, since the empty string is a
  substring of every entry. So \<^verbatim>\<open>getMode("")\<close> is \<^verbatim>\<open>'ignore'\<close> on every record whose
  ignore list has at least one entry, whatever the entry is.
\<close>

theorem hasForImpl_empty_name:
  "(well_typed r \<longrightarrow>
      hasForImpl r [] f = Inr (\<exists>xs. map_of (data r) (key f) = Some (JArray xs) \<and> xs \<noteq> [])) \<and>
   (\<forall>x xs. get (data r) (key Ignore_for) = JArray (x # xs) \<longrightarrow>
      getMode r [] = Inr (Some Mode_ignore))"
proof (intro conjI allI impI)
  assume wt: "well_typed r"
  then have lt: "list_typed r f" by (rule well_typed_list_typed)
  show "hasForImpl r [] f = Inr (\<exists>xs. map_of (data r) (key f) = Some (JArray xs) \<and> xs \<noteq> [])"
  proof (cases "get (data r) (key f)")
    case JUndefined
    then have "\<not> (\<exists>xs. map_of (data r) (key f) = Some (JArray xs) \<and> xs \<noteq> [])"
      by (auto simp: get_def)
    with JUndefined show ?thesis by (simp add: hasForImpl_undefined)
  next
    case (JNumber n)
    with lt show ?thesis by (simp add: list_typed_def)
  next
    case (JArray xs)
    then have m: "map_of (data r) (key f) = Some (JArray xs)"
      by (auto simp: get_def split: option.splits)
    have "(\<exists>e \<in> set xs. str_includes e []) \<longleftrightarrow> xs \<noteq> []"
      by (cases xs) (auto simp: str_includes_empty)
    with JArray m show ?thesis by (simp add: hasForImpl_array)
  qed
next
  fix x xs
  assume "get (data r) (key Ignore_for) = JArray (x # xs)"
  then have "hasForImpl r [] Ignore_for = Inr True"
    by (auto simp: hasForImpl_array str_includes_empty)
  then show "getMode r [] = Inr (Some Mode_ignore)"
    by (simp add: getMode_def)
qed

theorem hasForImpl_empty_name_witness:
  "well_typed (SpecOptions [('':ignore_for'', JArray [''anything at all'']), ('':todo'', JArray [])])
   \<and> hasForImpl (SpecOptions [('':ignore_for'', JArray [''anything at all'']), ('':todo'', JArray [])])
        [] Ignore_for = Inr True
   \<and> hasForImpl (SpecOptions [('':ignore_for'', JArray [''anything at all'']), ('':todo'', JArray [])])
        [] Todo = Inr False
   \<and> hasForImpl (SpecOptions [('':ignore_for'', JArray [''anything at all'']), ('':todo'', JArray [])])
        [] Warning_todo = Inr False
   \<and> getMode (SpecOptions [('':ignore_for'', JArray [''anything at all'']), ('':todo'', JArray [])])
        [] = Inr (Some Mode_ignore)"
proof -
  let ?r = "SpecOptions [('':ignore_for'', JArray [''anything at all'']), ('':todo'', JArray [])]"
  have wt: "well_typed ?r"
    by (simp add: well_typed_def lists_typed_def list_typed_def get_def precision_key_def)
  from wt hasForImpl_empty_name [of ?r Ignore_for] hasForImpl_empty_name [of ?r Todo]
    hasForImpl_empty_name [of ?r Warning_todo]
  show ?thesis by (simp add: get_def)
qed

subsection \<open>merge\<close>

lemma mergeOption_eq:
  "mergeOption a b f =
     (if list_typed a f \<and> list_typed b f then Inr (entries a f @ entries b f)
      else Inl TypeError)"
  by (cases "get (data a) (key f)"; cases "get (data b) (key f)")
     (simp_all add: mergeOption_def list_typed_def entries_def)

lemma merge_eq:
  "merge a b =
     (if lists_typed a \<and> lists_typed b then
        Inr (SpecOptions
            [(key Ignore_for, JArray (entries a Ignore_for @ entries b Ignore_for)),
             (key Todo, JArray (entries a Todo @ entries b Todo)),
             (key Warning_todo, JArray (entries a Warning_todo @ entries b Warning_todo)),
             (precision_key,
                nullish (get (data b) precision_key) (get (data a) precision_key))])
      else Inl TypeError)"
  by (auto simp: merge_def mergeOption_eq lists_typed_def)

lemma merged_get:
  assumes "m = SpecOptions
            [(key Ignore_for, JArray i), (key Todo, JArray t), (key Warning_todo, JArray w),
             (precision_key, p)]"
  shows "get (data m) (key Ignore_for) = JArray i"
    and "get (data m) (key Todo) = JArray t"
    and "get (data m) (key Warning_todo) = JArray w"
    and "get (data m) precision_key = p"
  using assms by (simp_all add: get_def precision_key_def)

lemma merge_result:
  assumes "merge a b = Inr m"
  shows "lists_typed a" and "lists_typed b"
    and "get (data m) (key f) = JArray (entries a f @ entries b f)"
    and "map_of (data m) (key f) = Some (JArray (entries a f @ entries b f))"
    and "entries m f = entries a f @ entries b f"
    and "get (data m) precision_key
           = nullish (get (data b) precision_key) (get (data a) precision_key)"
    and "lists_typed m"
proof -
  show ta: "lists_typed a" and tb: "lists_typed b"
    using assms by (auto simp: merge_eq split: if_splits)
  from assms ta tb have m: "m = SpecOptions
            [(key Ignore_for, JArray (entries a Ignore_for @ entries b Ignore_for)),
             (key Todo, JArray (entries a Todo @ entries b Todo)),
             (key Warning_todo, JArray (entries a Warning_todo @ entries b Warning_todo)),
             (precision_key,
                nullish (get (data b) precision_key) (get (data a) precision_key))]"
    by (simp add: merge_eq)
  show g: "get (data m) (key f) = JArray (entries a f @ entries b f)"
    using merged_get(1-3) [OF m] by (cases f) simp_all
  show "map_of (data m) (key f) = Some (JArray (entries a f @ entries b f))"
    using m by (cases f) simp_all
  show "entries m f = entries a f @ entries b f"
    using g by (simp add: entries_def)
  show "get (data m) precision_key
           = nullish (get (data b) precision_key) (get (data a) precision_key)"
    using merged_get(4) [OF m] .
  show "lists_typed m"
    using merged_get(1-3) [OF m] by (simp add: lists_typed_def list_typed_def)
qed

lemma merge_total: "lists_typed a \<Longrightarrow> lists_typed b \<Longrightarrow> \<exists>m. merge a b = Inr m"
  by (simp add: merge_eq)

lemma nullish_assoc: "nullish c (nullish b a) = nullish (nullish c b) a"
  by (simp add: nullish_def)

lemma SpecOptions_eqI:
  assumes "merge x y = Inr m" and "merge x' y' = Inr m'"
    and "\<And>f. entries x f @ entries y f = entries x' f @ entries y' f"
    and "nullish (get (data y) precision_key) (get (data x) precision_key)
         = nullish (get (data y') precision_key) (get (data x') precision_key)"
  shows "m = m'"
  using assms(1,2) merge_result(1,2) [OF assms(1)] merge_result(1,2) [OF assms(2)]
  by (simp add: merge_eq assms(3,4))

lemma entries_empty [simp]: "entries (SpecOptions []) f = []"
  by (simp add: entries_def)

lemma lists_typed_empty [simp]: "lists_typed (SpecOptions [])"
  by (simp add: lists_typed_def list_typed_def)

lemma queries_agree:
  assumes "lists_typed m" and "lists_typed r"
    and "\<And>f. entries m f = entries r f"
    and "nullish (get (data m) precision_key) (JNumber 10)
         = nullish (get (data r) precision_key) (JNumber 10)"
  shows "getMode m s = getMode r s"
    and "isWarningTodo m s = isWarningTodo r s"
    and "precision m = precision r"
  using assms
  by (simp_all add: getMode_def isWarningTodo_def precision_def
        hasForImpl_entries lists_typed_list_typed)

lemma merge_precision_present:
  assumes "merge a b = Inr m"
  shows "map_of (data m) precision_key
           = Some (nullish (get (data b) precision_key) (get (data a) precision_key))"
proof -
  from assms have "lists_typed a \<and> lists_typed b"
    by (auto simp: merge_eq split: if_splits)
  with assms show ?thesis
    by (auto simp: merge_eq precision_key_def)
qed

text \<open>
  C3 states that each list field of \<^verbatim>\<open>a.merge(b)\<close> is \<^verbatim>\<open>a\<close>'s sequence followed by
  \<^verbatim>\<open>b\<close>'s, and that the precision of the result is \<^verbatim>\<open>b\<close>'s if \<^verbatim>\<open>b\<close> specifies one,
  else \<^verbatim>\<open>a\<close>'s, else absent. The last case fails: \<^verbatim>\<open>merge\<close> writes the key
  \<^verbatim>\<open>':precision'\<close> into every result, so when neither record specifies a precision the
  key is present and holds \<^verbatim>\<open>undefined\<close>. The merge of two records without any field
  shows it.
\<close>

theorem merge_spec_counterexample:
  "merge (SpecOptions []) (SpecOptions [])
     = Inr (SpecOptions [('':ignore_for'', JArray []), ('':todo'', JArray []),
                         ('':warning_todo'', JArray []), ('':precision'', JUndefined)])
   \<and> map_of (data (SpecOptions [('':ignore_for'', JArray []), ('':todo'', JArray []),
                         ('':warning_todo'', JArray []), ('':precision'', JUndefined)]))
         '':precision'' = Some JUndefined
   \<and> map_of (data (SpecOptions [('':ignore_for'', JArray []), ('':todo'', JArray []),
                         ('':warning_todo'', JArray []), ('':precision'', JUndefined)]))
         '':precision'' \<noteq> None
   \<and> map_of (data (SpecOptions [])) '':precision'' = None"
  by (simp add: merge_def mergeOption_def nullish_def get_def precision_key_def)

text \<open>
  C3, amended. For well-typed records \<^verbatim>\<open>a\<close> and \<^verbatim>\<open>b\<close>, \<^verbatim>\<open>a.merge(b)\<close> returns a
  record each of whose list fields is present and holds \<^verbatim>\<open>a\<close>'s sequence (empty if
  absent) followed by \<^verbatim>\<open>b\<close>'s sequence (empty if absent), in order and without
  deduplication: every entry occurs as often as in \<^verbatim>\<open>a\<close> and \<^verbatim>\<open>b\<close> together. Its
  precision key is always present: it holds \<^verbatim>\<open>b\<close>'s precision if \<^verbatim>\<open>b\<close> specifies one,
  else \<^verbatim>\<open>a\<close>'s precision, else \<^verbatim>\<open>undefined\<close>.
\<close>

theorem merge_spec:
  assumes "well_typed a" and "well_typed b"
  shows "\<exists>m. merge a b = Inr m
     \<and> (\<forall>f. map_of (data m) (key f) = Some (JArray (entries a f @ entries b f)))
     \<and> (\<forall>f e. count_list (entries m f) e
                = count_list (entries a f) e + count_list (entries b f) e)
     \<and> get (data m) precision_key
         = (if get (data b) precision_key \<noteq> JUndefined then get (data b) precision_key
            else get (data a) precision_key)
     \<and> map_of (data m) precision_key
         = Some (if get (data b) precision_key \<noteq> JUndefined then get (data b) precision_key
                 else get (data a) precision_key)"
proof -
  from assms obtain m where m: "merge a b = Inr m"
    using merge_total by (auto simp: well_typed_def)
  have "\<forall>f. map_of (data m) (key f) = Some (JArray (entries a f @ entries b f))"
    using merge_result(4) [OF m] by simp
  moreover have "\<forall>f e. count_list (entries m f) e
                = count_list (entries a f) e + count_list (entries b f) e"
    using merge_result(5) [OF m] by simp
  moreover have "get (data m) precision_key
         = (if get (data b) precision_key \<noteq> JUndefined then get (data b) precision_key
            else get (data a) precision_key)"
    using merge_result(6) [OF m] by (simp add: nullish_def)
  moreover have "map_of (data m) precision_key
         = Some (if get (data b) precision_key \<noteq> JUndefined then get (data b) precision_key
                 else get (data a) precision_key)"
    using merge_precision_present [OF m] by (simp add: nullish_def)
  ultimately show ?thesis using m by blast
qed

theorem merge_spec_witness:
  "well_typed (SpecOptions [('':todo'', JArray [''libsass'', ''dart-sass'']), ('':precision'', JNumber 5)])
   \<and> well_typed (SpecOptions [('':ignore_for'', JArray [''dart-sass'']), ('':todo'', JArray [''dart-sass''])])
   \<and> (\<exists>m. merge (SpecOptions [('':todo'', JArray [''libsass'', ''dart-sass'']), ('':precision'', JNumber 5)])
              (SpecOptions [('':ignore_for'', JArray [''dart-sass'']), ('':todo'', JArray [''dart-sass''])]) = Inr m
        \<and> map_of (data m) '':todo'' = Some (JArray [''libsass'', ''dart-sass'', ''dart-sass''])
        \<and> map_of (data m) '':ignore_for'' = Some (JArray [''dart-sass''])
        \<and> map_of (data m) '':warning_todo'' = Some (JArray [])
        \<and> get (data m) '':precision'' = JNumber 5
        \<and> map_of (data m) '':precision'' = Some (JNumber 5))
   \<and> well_typed (SpecOptions [])
   \<and> (\<exists>m. merge (SpecOptions []) (SpecOptions []) = Inr m
        \<and> map_of (data m) '':todo'' = Some (JArray [])
        \<and> map_of (data m) '':precision'' = Some JUndefined)"
proof -
  let ?a = "SpecOptions [('':todo'', JArray [''libsass'', ''dart-sass'']), ('':precision'', JNumber 5)]"
  let ?b = "SpecOptions [('':ignore_for'', JArray [''dart-sass'']), ('':todo'', JArray [''dart-sass''])]"
  let ?n = "SpecOptions []"
  have a: "well_typed ?a" and b: "well_typed ?b" and n: "well_typed ?n"
    by (simp_all add: well_typed_def lists_typed_def list_typed_def get_def precision_key_def)
  from merge_spec [OF a b] obtain m where m: "merge ?a ?b = Inr m"
    and l: "\<forall>f. map_of (data m) (key f) = Some (JArray (entries ?a f @ entries ?b f))"
    and p: "get (data m) precision_key
         = (if get (data ?b) precision_key \<noteq> JUndefined then get (data ?b) precision_key
            else get (data ?a) precision_key)"
    and q: "map_of (data m) precision_key
         = Some (if get (data ?b) precision_key \<noteq> JUndefined then get (data ?b) precision_key
                 else get (data ?a) precision_key)"
    by blast
  from l [rule_format, of Todo] l [rule_format, of Ignore_for] l [rule_format, of Warning_todo] p q
  have 1: "map_of (data m) '':todo'' = Some (JArray [''libsass'', ''dart-sass'', ''dart-sass''])
        \<and> map_of (data m) '':ignore_for'' = Some (JArray [''dart-sass''])
        \<and> map_of (data m) '':warning_todo'' = Some (JArray [])
        \<and> get (data m) '':precision'' = JNumber 5
        \<and> map_of (data m) '':precision'' = Some (JNumber 5)"
    by (simp add: entries_def get_def precision_key_def)
  from merge_spec [OF n n] obtain m' where m': "merge ?n ?n = Inr m'"
    and l': "\<forall>f. map_of (data m') (key f) = Some (JArray (entries ?n f @ entries ?n f))"
    and q': "map_of (data m') precision_key
         = Some (if get (data ?n) precision_key \<noteq> JUndefined then get (data ?n) precision_key
                 else get (data ?n) precision_key)"
    by blast
  from l' [rule_format, of Todo] q'
  have 2: "map_of (data m') '':todo'' = Some (JArray [])
        \<and> map_of (data m') '':precision'' = Some JUndefined"
    by (simp add: precision_key_def)
  from a b n m 1 m' 2 show ?thesis by blast
qed

lemma merge_assoc_cases:
  "(case merge a b of Inl e \<Rightarrow> Inl e | Inr ab \<Rightarrow> merge ab c)
   = (case merge b c of Inl e \<Rightarrow> Inl e | Inr bc \<Rightarrow> merge a bc)"
proof (cases "lists_typed a \<and> lists_typed b \<and> lists_typed c")
  case True
  then obtain ab bc where ab: "merge a b = Inr ab" and bc: "merge b c = Inr bc"
    using merge_total by blast
  from True merge_result(7) [OF ab] obtain l where l: "merge ab c = Inr l"
    using merge_total by blast
  from True merge_result(7) [OF bc] obtain r where r: "merge a bc = Inr r"
    using merge_total by blast
  have "l = r"
  proof (rule SpecOptions_eqI [OF l r])
    fix f
    show "entries ab f @ entries c f = entries a f @ entries bc f"
      by (simp add: merge_result(5) [OF ab] merge_result(5) [OF bc])
  next
    show "nullish (get (data c) precision_key) (get (data ab) precision_key)
          = nullish (get (data bc) precision_key) (get (data a) precision_key)"
      by (simp add: merge_result(6) [OF ab] merge_result(6) [OF bc] nullish_assoc)
  qed
  with ab bc l r show ?thesis by simp
next
  case False
  have left: "(case merge a b of Inl e \<Rightarrow> Inl e | Inr ab \<Rightarrow> merge ab c) = Inl TypeError"
  proof (cases "merge a b")
    case (Inl e)
    then show ?thesis by (cases e) simp
  next
    case (Inr ab)
    with False merge_result(1,2) [OF Inr] have "\<not> lists_typed c" by blast
    with Inr show ?thesis by (simp add: merge_eq)
  qed
  have right: "(case merge b c of Inl e \<Rightarrow> Inl e | Inr bc \<Rightarrow> merge a bc) = Inl TypeError"
  proof (cases "merge b c")
    case (Inl e)
    then show ?thesis by (cases e) simp
  next
    case (Inr bc)
    with False merge_result(1,2) [OF Inr] have "\<not> lists_typed a" by blast
    with Inr show ?thesis by (simp add: merge_eq)
  qed
  from left right show ?thesis by simp
qed

subsection \<open>Chains of merges\<close>

lemma and_then_simps [simp]:
  "and_then (Inl e) f = Inl e"
  "and_then (Inr v) f = f v"
  by (simp_all add: and_then_def)

lemma and_then_Inr [simp]: "and_then x Inr = x"
  by (cases x) simp_all

lemma and_then_assoc:
  "and_then (and_then x f) g = and_then x (\<lambda>v. and_then (f v) g)"
  by (cases x) simp_all

lemma merge_assoc_and_then:
  "and_then (merge a b) (\<lambda>ab. merge ab c) = and_then (merge b c) (\<lambda>bc. merge a bc)"
  using merge_assoc_cases [where a = a and b = b and c = c] by (simp add: and_then_def)

lemma merge_chain_shift:
  "and_then (merge a b) (\<lambda>ab. merge_chain ab rs) = and_then (merge_chain b rs) (\<lambda>m. merge a m)"
proof (induction rs arbitrary: a b)
  case Nil
  show ?case by simp
next
  case (Cons c rs)
  have "and_then (merge a b) (\<lambda>ab. merge_chain ab (c # rs))
      = and_then (and_then (merge a b) (\<lambda>ab. merge ab c)) (\<lambda>x. merge_chain x rs)"
    by (simp add: and_then_assoc)
  also have "\<dots> = and_then (and_then (merge b c) (\<lambda>bc. merge a bc)) (\<lambda>x. merge_chain x rs)"
    by (simp only: merge_assoc_and_then)
  also have "\<dots> = and_then (merge b c) (\<lambda>bc. and_then (merge a bc) (\<lambda>x. merge_chain x rs))"
    by (simp add: and_then_assoc)
  also have "\<dots> = and_then (merge b c) (\<lambda>bc. and_then (merge_chain bc rs) (\<lambda>m. merge a m))"
    by (simp only: Cons.IH)
  also have "\<dots> = and_then (merge_chain b (c # rs)) (\<lambda>m. merge a m)"
    by (simp add: and_then_assoc)
  finally show ?case .
qed

lemma merge_chain_append:
  "merge_chain a (xs @ y # ys)
   = and_then (merge_chain a xs) (\<lambda>m. and_then (merge_chain y ys) (\<lambda>n. merge m n))"
proof (induction xs arbitrary: a)
  case Nil
  show ?case by (simp add: merge_chain_shift)
next
  case (Cons x xs)
  show ?case by (simp add: Cons.IH and_then_assoc)
qed

lemma chain_nonempty: "chain g \<noteq> []"
  by (induction g) simp_all

lemma merge_grouped_chain:
  "chain g = r # rs \<Longrightarrow> merge_grouped g = merge_chain r rs"
proof (induction g arbitrary: r rs)
  case (Single x)
  then show ?case by simp
next
  case (Group g h)
  obtain a as where g: "chain g = a # as"
    using chain_nonempty [of g] by (cases "chain g") auto
  obtain y ys where h: "chain h = y # ys"
    using chain_nonempty [of h] by (cases "chain h") auto
  from Group.prems g h have r: "r = a" and rs: "rs = as @ y # ys" by simp_all
  have "merge_grouped (Group g h)
      = and_then (merge_chain a as) (\<lambda>m. and_then (merge_chain y ys) (\<lambda>n. merge m n))"
    by (simp add: Group.IH(1) [OF g] Group.IH(2) [OF h])
  also have "\<dots> = merge_chain a (as @ y # ys)"
    by (simp only: merge_chain_append)
  finally show ?case by (simp add: r rs)
qed

text \<open>
  C8. Merge is associative: \<^verbatim>\<open>(a.merge(b)).merge(c)\<close> and \<^verbatim>\<open>a.merge(b.merge(c))\<close> return
  the same record, or both raise; on well-typed records both return. So merging a chain
  of records gives the same result under every grouping: the result of any grouping is
  that of folding the chain from the left, and two groupings of one chain agree.
\<close>

theorem merge_assoc:
  "(case merge a b of Inl e \<Rightarrow> Inl e | Inr ab \<Rightarrow> merge ab c)
     = (case merge b c of Inl e \<Rightarrow> Inl e | Inr bc \<Rightarrow> merge a bc)
   \<and> (well_typed a \<and> well_typed b \<and> well_typed c \<longrightarrow>
        (\<exists>ab bc m. merge a b = Inr ab \<and> merge b c = Inr bc
            \<and> merge ab c = Inr m \<and> merge a bc = Inr m))
   \<and> (\<forall>g r rs. chain g = r # rs \<longrightarrow> merge_grouped g = merge_chain r rs)
   \<and> (\<forall>g h. chain g = chain h \<longrightarrow> merge_grouped g = merge_grouped h)"
proof (intro conjI allI impI)
  show eq: "(case merge a b of Inl e \<Rightarrow> Inl e | Inr ab \<Rightarrow> merge ab c)
     = (case merge b c of Inl e \<Rightarrow> Inl e | Inr bc \<Rightarrow> merge a bc)"
    by (rule merge_assoc_cases)
  show "\<exists>ab bc m. merge a b = Inr ab \<and> merge b c = Inr bc
            \<and> merge ab c = Inr m \<and> merge a bc = Inr m"
    if "well_typed a \<and> well_typed b \<and> well_typed c"
  proof -
    from that have t: "lists_typed a" "lists_typed b" "lists_typed c"
      by (simp_all add: well_typed_def)
    then obtain ab bc where ab: "merge a b = Inr ab" and bc: "merge b c = Inr bc"
      using merge_total by blast
    from t merge_result(7) [OF ab] obtain m where m: "merge ab c = Inr m"
      using merge_total by blast
    with eq ab bc have "merge a bc = Inr m" by simp
    with ab bc m show ?thesis by blast
  qed
  show "merge_grouped g = merge_chain r rs" if "chain g = r # rs" for g r rs
    using that by (rule merge_grouped_chain)
  show "merge_grouped g = merge_grouped h" if "chain g = chain h" for g h
  proof -
    obtain r rs where g: "chain g = r # rs"
      using chain_nonempty [of g] by (cases "chain g") auto
    with that have h: "chain h = r # rs" by simp
    show ?thesis by (simp add: merge_grouped_chain [OF g] merge_grouped_chain [OF h])
  qed
qed

theorem merge_assoc_witness:
  "well_typed (SpecOptions [('':todo'', JArray [''a''])])
   \<and> well_typed (SpecOptions [('':precision'', JNumber 3)])
   \<and> well_typed (SpecOptions [('':todo'', JArray [''c''])])
   \<and> (case merge (SpecOptions [('':todo'', JArray [''a''])]) (SpecOptions [('':precision'', JNumber 3)]) of
      Inl e \<Rightarrow> Inl e | Inr ab \<Rightarrow> merge ab (SpecOptions [('':todo'', JArray [''c''])]))
   = Inr (SpecOptions [('':ignore_for'', JArray []), ('':todo'', JArray [''a'', ''c'']),
                       ('':warning_todo'', JArray []), ('':precision'', JNumber 3)])
   \<and> (case merge (SpecOptions [('':precision'', JNumber 3)]) (SpecOptions [('':todo'', JArray [''c''])]) of
      Inl e \<Rightarrow> Inl e | Inr bc \<Rightarrow> merge (SpecOptions [('':todo'', JArray [''a''])]) bc)
   = Inr (SpecOptions [('':ignore_for'', JArray []), ('':todo'', JArray [''a'', ''c'']),
                       ('':warning_todo'', JArray []), ('':precision'', JNumber 3)])
   \<and> merge_grouped (Group (Single (SpecOptions [('':todo'', JArray [''a''])]))
         (Group (Single (SpecOptions [('':precision'', JNumber 3)]))
                (Single (SpecOptions [('':todo'', JArray [''c''])]))))
     = merge_chain (SpecOptions [('':todo'', JArray [''a''])])
         [SpecOptions [('':precision'', JNumber 3)], SpecOptions [('':todo'', JArray [''c''])]]
   \<and> merge_grouped (Group (Single (SpecOptions [('':todo'', JArray [''a''])]))
         (Group (Single (SpecOptions [('':precision'', JNumber 3)]))
                (Single (SpecOptions [('':todo'', JArray [''c''])]))))
     = merge_grouped (Group (Group (Single (SpecOptions [('':todo'', JArray [''a''])]))
                (Single (SpecOptions [('':precision'', JNumber 3)])))
         (Single (SpecOptions [('':todo'', JArray [''c''])])))"
proof -
  let ?a = "SpecOptions [('':todo'', JArray [''a''])]"
  let ?b = "SpecOptions [('':precision'', JNumber 3)]"
  let ?c = "SpecOptions [('':todo'', JArray [''c''])]"
  note A = merge_assoc [where a = ?a and b = ?b and c = ?c]
  have wt: "well_typed ?a" "well_typed ?b" "well_typed ?c"
    by (simp_all add: well_typed_def lists_typed_def list_typed_def get_def precision_key_def)
  have l: "(case merge ?a ?b of Inl e \<Rightarrow> Inl e | Inr ab \<Rightarrow> merge ab ?c)
   = Inr (SpecOptions [('':ignore_for'', JArray []), ('':todo'', JArray [''a'', ''c'']),
                       ('':warning_todo'', JArray []), ('':precision'', JNumber 3)])"
    by (simp add: merge_def mergeOption_def get_def precision_key_def nullish_def)
  from A have r: "(case merge ?a ?b of Inl e \<Rightarrow> Inl e | Inr ab \<Rightarrow> merge ab ?c)
     = (case merge ?b ?c of Inl e \<Rightarrow> Inl e | Inr bc \<Rightarrow> merge ?a bc)"
    by blast
  have c1: "chain (Group (Single ?a) (Group (Single ?b) (Single ?c))) = ?a # [?b, ?c]"
    by simp
  have c2: "chain (Group (Single ?a) (Group (Single ?b) (Single ?c)))
      = chain (Group (Group (Single ?a) (Single ?b)) (Single ?c))"
    by simp
  from A c1 have g1: "merge_grouped (Group (Single ?a) (Group (Single ?b) (Single ?c)))
      = merge_chain ?a [?b, ?c]"
    by blast
  from A c2 have g2: "merge_grouped (Group (Single ?a) (Group (Single ?b) (Single ?c)))
      = merge_grouped (Group (Group (Single ?a) (Single ?b)) (Single ?c))"
    by blast
  from wt l r g1 g2 show ?thesis by simp
qed

subsection \<open>Merging with an empty record\<close>

text \<open>
  C2. For every well-typed record \<^verbatim>\<open>r\<close>, merging with the record of the empty
  document on either side returns a record that answers \<^verbatim>\<open>getMode(s)\<close>,
  \<^verbatim>\<open>isWarningTodo(s)\<close> and \<^verbatim>\<open>precision()\<close> as \<^verbatim>\<open>r\<close> does, for every name \<^verbatim>\<open>s\<close>.
\<close>

theorem merge_empty_record:
  assumes "well_typed r"
  shows "\<exists>m1 m2. merge r (SpecOptions []) = Inr m1 \<and> merge (SpecOptions []) r = Inr m2
      \<and> (\<forall>s. getMode m1 s = getMode r s \<and> isWarningTodo m1 s = isWarningTodo r s
            \<and> getMode m2 s = getMode r s \<and> isWarningTodo m2 s = isWarningTodo r s)
      \<and> precision m1 = precision r \<and> precision m2 = precision r"
proof -
  from assms have lt: "lists_typed r" by (simp add: well_typed_def)
  then obtain m1 m2 where m1: "merge r (SpecOptions []) = Inr m1"
    and m2: "merge (SpecOptions []) r = Inr m2"
    using merge_total lists_typed_empty by blast
  have e1: "\<And>f. entries m1 f = entries r f"
    by (simp add: merge_result(5) [OF m1])
  have e2: "\<And>f. entries m2 f = entries r f"
    by (simp add: merge_result(5) [OF m2])
  have p1: "nullish (get (data m1) precision_key) (JNumber 10)
         = nullish (get (data r) precision_key) (JNumber 10)"
    by (simp add: merge_result(6) [OF m1] nullish_def)
  have p2: "nullish (get (data m2) precision_key) (JNumber 10)
         = nullish (get (data r) precision_key) (JNumber 10)"
    by (simp add: merge_result(6) [OF m2] nullish_def)
  note q1 = queries_agree [OF merge_result(7) [OF m1] lt e1 p1]
  note q2 = queries_agree [OF merge_result(7) [OF m2] lt e2 p2]
  from m1 m2 q1 q2 show ?thesis by simp
qed

theorem merge_empty_record_witness:
  "well_typed (SpecOptions [('':todo'', JArray [''libsass'']), ('':precision'', JNumber 5)])
   \<and> (\<exists>m1 m2. merge (SpecOptions [('':todo'', JArray [''libsass'']), ('':precision'', JNumber 5)])
                  (SpecOptions []) = Inr m1
        \<and> merge (SpecOptions [])
                  (SpecOptions [('':todo'', JArray [''libsass'']), ('':precision'', JNumber 5)]) = Inr m2
        \<and> getMode m1 ''libsass'' = Inr (Some Mode_todo) \<and> getMode m2 ''libsass'' = Inr (Some Mode_todo)
        \<and> isWarningTodo m1 ''libsass'' = Inr False \<and> isWarningTodo m2 ''libsass'' = Inr False
        \<and> precision m1 = JNumber 5 \<and> precision m2 = JNumber 5)"
proof -
  let ?r = "SpecOptions [('':todo'', JArray [''libsass'']), ('':precision'', JNumber 5)]"
  have wt: "well_typed ?r"
    by (simp add: well_typed_def lists_typed_def list_typed_def get_def precision_key_def)
  have q: "getMode ?r ''libsass'' = Inr (Some Mode_todo)" "isWarningTodo ?r ''libsass'' = Inr False"
    "precision ?r = JNumber 5"
    by (simp_all add: getMode_def isWarningTodo_def hasForImpl_def precision_def nullish_def
          get_def precision_key_def)
  from merge_empty_record [OF wt] q wt show ?thesis by metis
qed

lemma semantically_empty_lists:
  assumes "semantically_empty e"
  shows "lists_typed e" and "entries e f = []"
proof -
  from assms have "empty_or_absent e f"
    by (cases f) (simp_all add: semantically_empty_def)
  then show "entries e f = []"
    by (auto simp: empty_or_absent_def entries_def)
  from assms show "lists_typed e"
    by (auto simp: semantically_empty_def empty_or_absent_def lists_typed_def list_typed_def)
qed

text \<open>
  C1. Merging a semantically empty record \<^verbatim>\<open>e\<close> into any record \<^verbatim>\<open>r\<close>, on either
  side, is to have no effect: the result is to be equivalent to \<^verbatim>\<open>r\<close>, also under
  \<^verbatim>\<open>isEmpty\<close>. The code does otherwise at two inputs. The record with only
  \<^verbatim>\<open>:precision: 10\<close> is semantically empty, and \<^verbatim>\<open>isEmpty\<close> holds of it; merged into
  a record with precision 5 it gives precision 10, and a record of which \<^verbatim>\<open>isEmpty\<close>
  holds, which it did not of the record with precision 5. And the merge of two records
  without any field carries the precision key holding \<^verbatim>\<open>undefined\<close>, so that
  \<^verbatim>\<open>isEmpty\<close> is false of it, while it is true of each of the two.
\<close>

theorem merge_semantically_empty_failing_input:
  "semantically_empty (SpecOptions [('':precision'', JNumber 10)])
   \<and> isEmpty (SpecOptions [('':precision'', JNumber 10)]) = Inr True
   \<and> merge (SpecOptions [('':precision'', JNumber 5)]) (SpecOptions [('':precision'', JNumber 10)])
       = Inr (SpecOptions [('':ignore_for'', JArray []), ('':todo'', JArray []),
                           ('':warning_todo'', JArray []), ('':precision'', JNumber 10)])
   \<and> precision (SpecOptions [('':ignore_for'', JArray []), ('':todo'', JArray []),
                           ('':warning_todo'', JArray []), ('':precision'', JNumber 10)]) = JNumber 10
   \<and> precision (SpecOptions [('':precision'', JNumber 5)]) = JNumber 5
   \<and> isEmpty (SpecOptions [('':ignore_for'', JArray []), ('':todo'', JArray []),
                           ('':warning_todo'', JArray []), ('':precision'', JNumber 10)]) = Inr True
   \<and> isEmpty (SpecOptions [('':precision'', JNumber 5)]) = Inr False
   \<and> precision (SpecOptions [('':ignore_for'', JArray []), ('':todo'', JArray []),
                           ('':warning_todo'', JArray []), ('':precision'', JNumber 10)])
       \<noteq> precision (SpecOptions [('':precision'', JNumber 5)])
   \<and> semantically_empty (SpecOptions [])
   \<and> merge (SpecOptions []) (SpecOptions [])
       = Inr (SpecOptions [('':ignore_for'', JArray []), ('':todo'', JArray []),
                           ('':warning_todo'', JArray []), ('':precision'', JUndefined)])
   \<and> isEmpty (SpecOptions [('':ignore_for'', JArray []), ('':todo'', JArray []),
                           ('':warning_todo'', JArray []), ('':precision'', JUndefined)]) = Inr False
   \<and> isEmpty (SpecOptions []) = Inr True"
  by (simp add: semantically_empty_def empty_or_absent_def isEmpty_def merge_def mergeOption_def
        precision_def nullish_def get_def precision_key_def)

text \<open>
  What merging with a semantically empty record \<^verbatim>\<open>e\<close> does keep, on well-typed
  records: both merges return, the list fields of the result hold the sequences of
  \<^verbatim>\<open>r\<close>, and \<^verbatim>\<open>getMode\<close> and \<^verbatim>\<open>isWarningTodo\<close> answer as on \<^verbatim>\<open>r\<close>. \<^verbatim>\<open>e.merge(r)\<close>
  also keeps \<^verbatim>\<open>precision()\<close>; \<^verbatim>\<open>r.merge(e)\<close> keeps it when \<^verbatim>\<open>e\<close> has no precision.
\<close>

lemma modes_agree:
  assumes "lists_typed m" and "lists_typed r" and "\<And>f. entries m f = entries r f"
  shows "getMode m s = getMode r s" and "isWarningTodo m s = isWarningTodo r s"
  using assms
  by (simp_all add: getMode_def isWarningTodo_def hasForImpl_entries lists_typed_list_typed)

lemma merge_semantically_empty_keeps:
  assumes "well_typed r" and "semantically_empty e"
  shows "(\<exists>m. merge e r = Inr m
            \<and> (\<forall>f. map_of (data m) (key f) = Some (JArray (entries r f)))
            \<and> precision m = precision r
            \<and> (\<forall>s. getMode m s = getMode r s \<and> isWarningTodo m s = isWarningTodo r s))
       \<and> (\<exists>m. merge r e = Inr m
            \<and> (\<forall>f. map_of (data m) (key f) = Some (JArray (entries r f)))
            \<and> (\<forall>s. getMode m s = getMode r s \<and> isWarningTodo m s = isWarningTodo r s)
            \<and> (get (data e) precision_key = JUndefined \<longrightarrow>
                  get (data m) precision_key = get (data r) precision_key
                  \<and> precision m = precision r))"
proof (intro conjI)
  from assms(1) have lr: "lists_typed r" by (simp add: well_typed_def)
  note le = semantically_empty_lists [OF assms(2)]
  from assms(2) have pe: "get (data e) precision_key = JUndefined
      \<or> get (data e) precision_key = JNumber 10"
    by (simp add: semantically_empty_def)
  {
    from lr le(1) obtain m where m: "merge e r = Inr m" using merge_total by blast
    have en: "\<And>f. entries m f = entries r f"
      by (simp add: merge_result(5) [OF m] le(2))
    have p: "nullish (get (data m) precision_key) (JNumber 10)
         = nullish (get (data r) precision_key) (JNumber 10)"
      using pe by (auto simp: merge_result(6) [OF m] nullish_def)
    note q = queries_agree [OF merge_result(7) [OF m] lr en p]
    have "\<forall>f. map_of (data m) (key f) = Some (JArray (entries r f))"
      by (simp add: merge_result(4) [OF m] le(2))
    with m q
    show "\<exists>m. merge e r = Inr m
            \<and> (\<forall>f. map_of (data m) (key f) = Some (JArray (entries r f)))
            \<and> precision m = precision r
            \<and> (\<forall>s. getMode m s = getMode r s \<and> isWarningTodo m s = isWarningTodo r s)"
      by simp
  }
  {
    from lr le(1) obtain m where m: "merge r e = Inr m" using merge_total by blast
    have en: "\<And>f. entries m f = entries r f"
      by (simp add: merge_result(5) [OF m] le(2))
    note q = modes_agree [OF merge_result(7) [OF m] lr en]
    have l: "\<forall>f. map_of (data m) (key f) = Some (JArray (entries r f))"
      by (simp add: merge_result(4) [OF m] le(2))
    have g: "get (data m) precision_key = get (data r) precision_key
        \<and> precision m = precision r"
      if "get (data e) precision_key = JUndefined"
      using that by (simp add: merge_result(6) [OF m] nullish_def precision_def)
    from m q l g
    show "\<exists>m. merge r e = Inr m
            \<and> (\<forall>f. map_of (data m) (key f) = Some (JArray (entries r f)))
            \<and> (\<forall>s. getMode m s = getMode r s \<and> isWarningTodo m s = isWarningTodo r s)
            \<and> (get (data e) precision_key = JUndefined \<longrightarrow>
                  get (data m) precision_key = get (data r) precision_key
                  \<and> precision m = precision r)"
      by simp
  }
qed

subsection \<open>removeImpl\<close>


lemma findIndex_range: "findIndex p xs = -1 \<or> (0 \<le> findIndex p xs \<and> findIndex p xs < int (length xs))"
  by (induction xs) (auto simp: Let_def)

lemma findIndex_none: "findIndex p xs = -1 \<longleftrightarrow> (\<forall>x \<in> set xs. \<not> p x)"
proof (induction xs)
  case Nil
  show ?case by simp
next
  case (Cons x xs)
  from findIndex_range [of p xs] have "findIndex p xs + 1 \<noteq> -1" by auto
  with Cons show ?case by (auto simp: Let_def)
qed

lemma findIndex_first:
  assumes "\<forall>x \<in> set pre. \<not> p x" and "p e"
  shows "findIndex p (pre @ e # post) = int (length pre)"
  using assms
proof (induction pre)
  case Nil
  then show ?case by simp
next
  case (Cons x pre)
  then have "findIndex p (pre @ e # post) = int (length pre)" by simp
  with Cons.prems show ?case by (simp add: Let_def)
qed

lemma first_match_split:
  assumes "\<exists>x \<in> set xs. p x"
  shows "\<exists>pre e post. xs = pre @ e # post \<and> (\<forall>x \<in> set pre. \<not> p x) \<and> p e"
  using assms by (metis split_list_first_prop)

lemma slice_before: "slice (pre @ e # post) 0 (int (length pre)) = pre"
  by (simp add: slice_def Let_def)

lemma slice_after:
  "slice (pre @ e # post) (int (length pre) + 1) (int (length (pre @ e # post))) = post"
  by (simp add: slice_def Let_def nat_add_distrib)

lemma removeImpl_first:
  assumes g: "get (data r) (key f) = JArray (pre @ e # post)"
    and pre: "\<forall>x \<in> set pre. \<not> str_includes x s" and e: "str_includes e s"
  shows "removeImpl r s f =
     (if pre @ post = [] then Inr (SpecOptions (AList.delete (key f) (data r)))
      else Inr (SpecOptions (AList.update (key f) (JArray (pre @ post)) (data r))))"
proof -
  have i: "findIndex (\<lambda>item. str_includes item s) (pre @ e # post) = int (length pre)"
    using pre e by (rule findIndex_first)
  have l: "length (pre @ e # post) = 1 \<longleftrightarrow> pre @ post = []" by auto
  show ?thesis
    unfolding removeImpl_def g jsval.case Let_def i
    using slice_before [of pre e post] slice_after [of pre e post] l
    by simp
qed

lemma removeImpl_no_match:
  assumes "get (data r) (key f) = JArray xs" and "\<forall>x \<in> set xs. \<not> str_includes x s"
  shows "removeImpl r s f = Inr r"
  using assms findIndex_none [of "\<lambda>item. str_includes item s" xs]
  by (simp add: removeImpl_def)

text \<open>
  C6. \<^verbatim>\<open>removeImpl(s, field)\<close>: when the field is absent, or no entry contains \<^verbatim>\<open>s\<close>
  as a substring, the result is the record itself. When the field has exactly one entry
  and it matches, the key is deleted from the result, so the field is absent and not an
  empty sequence. Otherwise the first matching entry, and only it, is removed: the
  entries before it and after it stay in order, later matching entries included.
\<close>

theorem removeImpl_spec:
  "(get (data r) (key f) = JUndefined \<longrightarrow> removeImpl r s f = Inr r) \<and>
   (\<forall>xs. get (data r) (key f) = JArray xs \<and> (\<forall>x \<in> set xs. \<not> (\<exists>p q. x = p @ s @ q)) \<longrightarrow>
      removeImpl r s f = Inr r) \<and>
   (\<forall>e. get (data r) (key f) = JArray [e] \<and> (\<exists>p q. e = p @ s @ q) \<longrightarrow>
      (\<exists>r'. removeImpl r s f = Inr r' \<and> map_of (data r') (key f) = None
            \<and> data r' = AList.delete (key f) (data r))) \<and>
   (\<forall>pre e post. get (data r) (key f) = JArray (pre @ e # post) \<and> pre @ post \<noteq> []
        \<and> (\<forall>x \<in> set pre. \<not> (\<exists>p q. x = p @ s @ q)) \<and> (\<exists>p q. e = p @ s @ q) \<longrightarrow>
      (\<exists>r'. removeImpl r s f = Inr r' \<and> map_of (data r') (key f) = Some (JArray (pre @ post))
            \<and> data r' = AList.update (key f) (JArray (pre @ post)) (data r))) \<and>
   (\<forall>xs. get (data r) (key f) = JArray xs \<and> length xs \<noteq> 1
        \<and> (\<exists>x \<in> set xs. \<exists>p q. x = p @ s @ q) \<longrightarrow>
      (\<exists>pre e post. xs = pre @ e # post
            \<and> (\<forall>x \<in> set pre. \<not> (\<exists>p q. x = p @ s @ q)) \<and> (\<exists>p q. e = p @ s @ q)
            \<and> removeImpl r s f
                = Inr (SpecOptions (AList.update (key f) (JArray (pre @ post)) (data r))))) \<and>
   (well_typed r \<longrightarrow> (\<exists>r'. removeImpl r s f = Inr r'))"
proof (intro conjI allI impI)
  assume "get (data r) (key f) = JUndefined"
  then show "removeImpl r s f = Inr r" by (simp add: removeImpl_def)
next
  fix xs
  assume "get (data r) (key f) = JArray xs \<and> (\<forall>x \<in> set xs. \<not> (\<exists>p q. x = p @ s @ q))"
  then show "removeImpl r s f = Inr r"
    using removeImpl_no_match [of r f xs s] by (simp add: str_includes_iff)
next
  fix e
  assume h: "get (data r) (key f) = JArray [e] \<and> (\<exists>p q. e = p @ s @ q)"
  then have "removeImpl r s f = Inr (SpecOptions (AList.delete (key f) (data r)))"
    using removeImpl_first [of r f "[]" e "[]" s] by (simp add: str_includes_iff)
  then show "\<exists>r'. removeImpl r s f = Inr r' \<and> map_of (data r') (key f) = None
            \<and> data r' = AList.delete (key f) (data r)"
    by (simp add: delete_conv')
next
  fix pre e post
  assume h: "get (data r) (key f) = JArray (pre @ e # post) \<and> pre @ post \<noteq> []
        \<and> (\<forall>x \<in> set pre. \<not> (\<exists>p q. x = p @ s @ q)) \<and> (\<exists>p q. e = p @ s @ q)"
  then have "removeImpl r s f
      = Inr (SpecOptions (AList.update (key f) (JArray (pre @ post)) (data r)))"
    using removeImpl_first [of r f pre e post s] by (auto simp: str_includes_iff)
  then show "\<exists>r'. removeImpl r s f = Inr r' \<and> map_of (data r') (key f) = Some (JArray (pre @ post))
            \<and> data r' = AList.update (key f) (JArray (pre @ post)) (data r)"
    by (simp add: update_conv')
next
  fix xs
  assume h: "get (data r) (key f) = JArray xs \<and> length xs \<noteq> 1
        \<and> (\<exists>x \<in> set xs. \<exists>p q. x = p @ s @ q)"
  then have "\<exists>x \<in> set xs. str_includes x s" by (simp add: str_includes_iff)
  from first_match_split [OF this] obtain pre e post
    where xs: "xs = pre @ e # post" and pre: "\<forall>x \<in> set pre. \<not> str_includes x s"
      and e: "str_includes e s"
    by blast
  from h xs have ne: "pre @ post \<noteq> []" by auto
  from h xs have "get (data r) (key f) = JArray (pre @ e # post)" by simp
  from removeImpl_first [OF this pre e] ne
  have "removeImpl r s f
      = Inr (SpecOptions (AList.update (key f) (JArray (pre @ post)) (data r)))"
    by auto
  with xs pre e
  show "\<exists>pre e post. xs = pre @ e # post
            \<and> (\<forall>x \<in> set pre. \<not> (\<exists>p q. x = p @ s @ q)) \<and> (\<exists>p q. e = p @ s @ q)
            \<and> removeImpl r s f
                = Inr (SpecOptions (AList.update (key f) (JArray (pre @ post)) (data r)))"
    unfolding str_includes_iff by blast
next
  assume "well_typed r"
  then have "list_typed r f" by (rule well_typed_list_typed)
  then show "\<exists>r'. removeImpl r s f = Inr r'"
    by (cases "get (data r) (key f)") (simp_all add: removeImpl_def list_typed_def Let_def)
qed

theorem removeImpl_spec_witness:
  "removeImpl (SpecOptions []) ''libsass'' Todo = Inr (SpecOptions [])
   \<and> removeImpl (SpecOptions [('':todo'', JArray [''a''])]) ''libsass'' Todo
       = Inr (SpecOptions [('':todo'', JArray [''a''])])
   \<and> (\<exists>r'. removeImpl (SpecOptions [('':todo'', JArray [''libsass: x'']), ('':precision'', JNumber 5)])
               ''libsass'' Todo = Inr r'
          \<and> map_of (data r') '':todo'' = None \<and> data r' = [('':precision'', JNumber 5)])
   \<and> removeImpl (SpecOptions [('':todo'', JArray [''a'', ''libsass'', ''b'', ''libsass: x''])])
        ''libsass'' Todo
       = Inr (SpecOptions [('':todo'', JArray [''a'', ''b'', ''libsass: x''])])"
proof -
  let ?s = "''libsass''"
  let ?r1 = "SpecOptions []"
  let ?r2 = "SpecOptions [('':todo'', JArray [''a''])]"
  let ?r3 = "SpecOptions [('':todo'', JArray [''libsass: x'']), ('':precision'', JNumber 5)]"
  let ?r4 = "SpecOptions [('':todo'', JArray [''a'', ''libsass'', ''b'', ''libsass: x''])]"
  have n: "\<not> (\<exists>p q. ''a'' = p @ ?s @ q)"
    unfolding str_includes_iff [symmetric] by simp
  have y: "\<exists>p q. ''libsass: x'' = p @ ?s @ q"
    unfolding str_includes_iff [symmetric] by simp
  have z: "\<exists>p q. ''libsass'' = p @ ?s @ q"
    unfolding str_includes_iff [symmetric] by simp
  have g1: "get (data ?r1) (key Todo) = JUndefined"
    by (simp add: get_def)
  have g2: "get (data ?r2) (key Todo) = JArray [''a'']
      \<and> (\<forall>x \<in> set [''a'']. \<not> (\<exists>p q. x = p @ ?s @ q))"
    using n by (simp add: get_def)
  have g3: "get (data ?r3) (key Todo) = JArray [''libsass: x'']
      \<and> (\<exists>p q. ''libsass: x'' = p @ ?s @ q)"
    using y by (simp add: get_def)
  have g4: "get (data ?r4) (key Todo) = JArray ([''a''] @ ''libsass'' # [''b'', ''libsass: x''])
      \<and> [''a''] @ [''b'', ''libsass: x''] \<noteq> []
      \<and> (\<forall>x \<in> set [''a'']. \<not> (\<exists>p q. x = p @ ?s @ q))
      \<and> (\<exists>p q. ''libsass'' = p @ ?s @ q)"
    using n z by (simp add: get_def)
  have 1: "removeImpl ?r1 ?s Todo = Inr ?r1"
    using removeImpl_spec [of ?r1 Todo ?s, THEN conjunct1] g1 by (rule mp)
  have 2: "removeImpl ?r2 ?s Todo = Inr ?r2"
    using removeImpl_spec [of ?r2 Todo ?s, THEN conjunct2, THEN conjunct1, rule_format] g2
    by blast
  have "\<exists>r'. removeImpl ?r3 ?s Todo = Inr r' \<and> map_of (data r') (key Todo) = None
          \<and> data r' = AList.delete (key Todo) (data ?r3)"
    using removeImpl_spec [of ?r3 Todo ?s, THEN conjunct2, THEN conjunct2, THEN conjunct1,
        rule_format, OF g3] .
  then have 3: "\<exists>r'. removeImpl ?r3 ?s Todo = Inr r'
          \<and> map_of (data r') '':todo'' = None \<and> data r' = [('':precision'', JNumber 5)]"
    by simp
  have "\<exists>r'. removeImpl ?r4 ?s Todo = Inr r'
      \<and> map_of (data r') (key Todo) = Some (JArray ([''a''] @ [''b'', ''libsass: x'']))
      \<and> data r' = AList.update (key Todo) (JArray ([''a''] @ [''b'', ''libsass: x''])) (data ?r4)"
    using removeImpl_spec [of ?r4 Todo ?s, THEN conjunct2, THEN conjunct2, THEN conjunct2,
        THEN conjunct1, rule_format, OF g4] .
  then obtain r' where r': "removeImpl ?r4 ?s Todo = Inr r'"
    and d: "data r' = AList.update (key Todo) (JArray ([''a''] @ [''b'', ''libsass: x''])) (data ?r4)"
    by blast
  from d have "r' = SpecOptions [('':todo'', JArray [''a'', ''b'', ''libsass: x''])]"
    by (cases r') simp
  with r' have 4: "removeImpl ?r4 ?s Todo
      = Inr (SpecOptions [('':todo'', JArray [''a'', ''b'', ''libsass: x''])])"
    by simp
  from 1 2 3 4 show ?thesis by (intro conjI)
qed

subsection \<open>addImpl and removeImpl leave the other fields alone\<close>

lemma addImpl_eq:
  "addImpl r s f =
     (if list_typed r f then
        Inr (SpecOptions (AList.update (key f) (JArray (entries r f @ [s])) (data r)))
      else Inl TypeError)"
  by (cases "get (data r) (key f)") (simp_all add: addImpl_def list_typed_def entries_def)

lemma removeImpl_cases:
  assumes "removeImpl r s f = Inr r'"
  shows "r' = r \<or> data r' = AList.delete (key f) (data r)
         \<or> (\<exists>v. data r' = AList.update (key f) v (data r))"
  using assms
  by (cases "get (data r) (key f)") (auto simp: removeImpl_def Let_def split: if_splits)

text \<open>
  C10. \<^verbatim>\<open>addImpl\<close> and \<^verbatim>\<open>removeImpl\<close> change at most the selected field: with the
  selected key taken out, the result has the same properties as the input record, in the
  same order. So every other key reads the same, among them the other two list fields,
  the precision and every unrecognized field. On a well-typed record both return.
\<close>

theorem addImpl_removeImpl_frame:
  "(\<forall>r'. addImpl r s f = Inr r' \<or> removeImpl r s f = Inr r' \<longrightarrow>
      AList.delete (key f) (data r') = AList.delete (key f) (data r)
      \<and> (\<forall>k. k \<noteq> key f \<longrightarrow> map_of (data r') k = map_of (data r) k)
      \<and> (\<forall>f'. f' \<noteq> f \<longrightarrow> map_of (data r') (key f') = map_of (data r) (key f'))
      \<and> map_of (data r') precision_key = map_of (data r) precision_key)
   \<and> (well_typed r \<longrightarrow> (\<exists>r1 r2. addImpl r s f = Inr r1 \<and> removeImpl r s f = Inr r2))"
proof (intro conjI allI impI)
  fix r'
  assume h: "addImpl r s f = Inr r' \<or> removeImpl r s f = Inr r'"
  then have c: "r' = r \<or> data r' = AList.delete (key f) (data r)
         \<or> (\<exists>v. data r' = AList.update (key f) v (data r))"
  proof
    assume "addImpl r s f = Inr r'"
    then show ?thesis by (auto simp: addImpl_eq split: if_splits)
  next
    assume "removeImpl r s f = Inr r'"
    then show ?thesis by (rule removeImpl_cases)
  qed
  then show d: "AList.delete (key f) (data r') = AList.delete (key f) (data r)"
    by (auto simp: delete_idem delete_update_same)
  have m: "\<And>k. k \<noteq> key f \<Longrightarrow> map_of (data r') k = map_of (data r) k"
    using c by (auto simp: update_conv')
  from m show "k \<noteq> key f \<Longrightarrow> map_of (data r') k = map_of (data r) k" for k .
  have "key f' \<noteq> key f" if "f' \<noteq> f" for f'
    using that by (cases f; cases f') simp_all
  with m show "f' \<noteq> f \<Longrightarrow> map_of (data r') (key f') = map_of (data r) (key f')" for f'
    by simp
  have "precision_key \<noteq> key f" by (cases f) (simp_all add: precision_key_def)
  with m show "map_of (data r') precision_key = map_of (data r) precision_key" by simp
next
  assume "well_typed r"
  then have lt: "list_typed r f" by (rule well_typed_list_typed)
  then have "\<exists>r2. removeImpl r s f = Inr r2"
    by (cases "get (data r) (key f)") (simp_all add: removeImpl_def list_typed_def Let_def)
  with lt show "\<exists>r1 r2. addImpl r s f = Inr r1 \<and> removeImpl r s f = Inr r2"
    by (simp add: addImpl_eq)
qed

theorem addImpl_removeImpl_frame_witness:
  "addImpl (SpecOptions [('':ignore_for'', JArray [''x'']), ('':todo'', JArray [''libsass'']),
                         ('':precision'', JNumber 5), (''extra'', JNumber 1)]) ''dart-sass'' Todo
     = Inr (SpecOptions [('':ignore_for'', JArray [''x'']), ('':todo'', JArray [''libsass'', ''dart-sass'']),
                         ('':precision'', JNumber 5), (''extra'', JNumber 1)])
   \<and> AList.delete '':todo'' [('':ignore_for'', JArray [''x'']), ('':todo'', JArray [''libsass'', ''dart-sass'']),
                         ('':precision'', JNumber 5), (''extra'', JNumber 1)]
     = AList.delete '':todo'' [('':ignore_for'', JArray [''x'']), ('':todo'', JArray [''libsass'']),
                         ('':precision'', JNumber 5), (''extra'', JNumber 1)]
   \<and> removeImpl (SpecOptions [('':ignore_for'', JArray [''x'']), ('':todo'', JArray [''libsass'']),
                         ('':precision'', JNumber 5), (''extra'', JNumber 1)]) ''libsass'' Todo
     = Inr (SpecOptions [('':ignore_for'', JArray [''x'']),
                         ('':precision'', JNumber 5), (''extra'', JNumber 1)])
   \<and> AList.delete '':todo'' [('':ignore_for'', JArray [''x'']),
                         ('':precision'', JNumber 5), (''extra'', JNumber 1)]
     = AList.delete '':todo'' [('':ignore_for'', JArray [''x'']), ('':todo'', JArray [''libsass'']),
                         ('':precision'', JNumber 5), (''extra'', JNumber 1)]"
proof -
  let ?r = "SpecOptions [('':ignore_for'', JArray [''x'']), ('':todo'', JArray [''libsass'']),
                         ('':precision'', JNumber 5), (''extra'', JNumber 1)]"
  let ?a = "SpecOptions [('':ignore_for'', JArray [''x'']), ('':todo'', JArray [''libsass'', ''dart-sass'']),
                         ('':precision'', JNumber 5), (''extra'', JNumber 1)]"
  let ?d = "SpecOptions [('':ignore_for'', JArray [''x'']),
                         ('':precision'', JNumber 5), (''extra'', JNumber 1)]"
  have a: "addImpl ?r ''dart-sass'' Todo = Inr ?a"
    by (simp add: addImpl_def get_def)
  have d: "removeImpl ?r ''libsass'' Todo = Inr ?d"
    by (simp add: removeImpl_def get_def)
  from a addImpl_removeImpl_frame [of ?r "''dart-sass''" Todo]
  have 1: "AList.delete (key Todo) (data ?a) = AList.delete (key Todo) (data ?r)" by blast
  from d addImpl_removeImpl_frame [of ?r "''libsass''" Todo]
  have 2: "AList.delete (key Todo) (data ?d) = AList.delete (key Todo) (data ?r)" by blast
  from a d 1 2 show ?thesis by simp
qed

end
